theory Spec2Isabelle
  imports Main "HOL-Library.Word"
begin

unbundle bit_operations_syntax

section \<open>Modbus RTU slave: data model\<close>

text \<open>
  The embedded source is \<^verbatim>\<open>src/Modbus/Modbus.cpp\<close>. \<^verbatim>\<open>uint8_t\<close> and
  \<^verbatim>\<open>uint16_t\<close> are 8 and 16 bit words. A buffer handed over as a pointer is the
  memory behind the pointer, a function from the offset to the byte stored there; the
  size of an array is checked where the code writes through an index.
\<close>

type_synonym u8 = "8 word"
type_synonym u16 = "16 word"
type_synonym buffer = "nat \<Rightarrow> u8"

abbreviation (input) COIL_COUNT :: nat where "COIL_COUNT \<equiv> 100"
abbreviation (input) DISCRETE_INPUT_COUNT :: nat where "DISCRETE_INPUT_COUNT \<equiv> 100"
abbreviation (input) HOLDING_REGISTER_COUNT :: nat where "HOLDING_REGISTER_COUNT \<equiv> 100"
abbreviation (input) INPUT_REGISTER_COUNT :: nat where "INPUT_REGISTER_COUNT \<equiv> 100"

abbreviation (input) FC_READ_COILS :: u8 where "FC_READ_COILS \<equiv> 0x01"
abbreviation (input) FC_READ_DISCRETE_INPUTS :: u8 where "FC_READ_DISCRETE_INPUTS \<equiv> 0x02"
abbreviation (input) FC_READ_HOLDING_REGS :: u8 where "FC_READ_HOLDING_REGS \<equiv> 0x03"
abbreviation (input) FC_READ_INPUT_REGS :: u8 where "FC_READ_INPUT_REGS \<equiv> 0x04"
abbreviation (input) FC_WRITE_SINGLE_COIL :: u8 where "FC_WRITE_SINGLE_COIL \<equiv> 0x05"
abbreviation (input) FC_WRITE_SINGLE_REG :: u8 where "FC_WRITE_SINGLE_REG \<equiv> 0x06"
abbreviation (input) FC_WRITE_MULTIPLE_COILS :: u8 where "FC_WRITE_MULTIPLE_COILS \<equiv> 0x0F"
abbreviation (input) FC_WRITE_MULTIPLE_REGS :: u8 where "FC_WRITE_MULTIPLE_REGS \<equiv> 0x10"

abbreviation (input) ERROR_ILLEGAL_FUNCTION :: u8 where "ERROR_ILLEGAL_FUNCTION \<equiv> 0x01"
abbreviation (input) ERROR_ILLEGAL_DATA_ADDRESS :: u8 where "ERROR_ILLEGAL_DATA_ADDRESS \<equiv> 0x02"
abbreviation (input) ERROR_ILLEGAL_DATA_VALUE :: u8 where "ERROR_ILLEGAL_DATA_VALUE \<equiv> 0x03"
abbreviation (input) ERROR_SLAVE_DEVICE_FAILURE :: u8 where "ERROR_SLAVE_DEVICE_FAILURE \<equiv> 0x04"

text \<open>
  The file-scope arrays (the four banks), the function-static variables of
  \<^verbatim>\<open>modbus_poll\<close>, and what the device does to the outside: \<open>uart_tx\<close> lists the
  byte sequences passed to \<^verbatim>\<open>uart_send\<close>, oldest first, and \<open>handed\<close> lists the
  frames (the first \<^verbatim>\<open>rx_length\<close> bytes of \<^verbatim>\<open>rx_buffer\<close>) passed to
  \<^verbatim>\<open>modbus_process_request\<close> by \<^verbatim>\<open>modbus_poll\<close>.
\<close>

record modbus_state =
  coils :: "u8 list"
  discrete_inputs :: "u8 list"
  holding_registers :: "u16 list"
  input_registers :: "u16 list"
  rx_buffer :: buffer
  rx_length :: u16
  frame_received :: bool
  uart_tx :: "u8 list list"
  handed :: "u8 list list"

datatype error = BufferOverflow nat

text \<open>Static storage is zero-initialised.\<close>

definition initial_state :: modbus_state where
  "initial_state =
     \<lparr> coils = replicate (COIL_COUNT div 8 + 1) 0,
       discrete_inputs = replicate (DISCRETE_INPUT_COUNT div 8 + 1) 0,
       holding_registers = replicate HOLDING_REGISTER_COUNT 0,
       input_registers = replicate INPUT_REGISTER_COUNT 0,
       rx_buffer = (\<lambda>_. 0),
       rx_length = 0,
       frame_received = False,
       uart_tx = [],
       handed = [] \<rparr>"

text \<open>A byte list laid out in memory from offset 0; the bytes behind it are zero.\<close>

definition mem_of :: "u8 list \<Rightarrow> buffer" where
  "mem_of bs = (\<lambda>i. if i < length bs then bs ! i else 0)"

text \<open>
  A load \<^verbatim>\<open>p[i]\<close>: the byte, and the offset appended to the log of the offsets read
  through \<^verbatim>\<open>p\<close>.
\<close>

definition ld :: "buffer \<Rightarrow> nat \<Rightarrow> nat list \<Rightarrow> u8 \<times> nat list" where
  "ld mem i tr = (mem i, tr @ [i])"

section \<open>CRC16\<close>

text \<open>The body of the inner loop of \<^verbatim>\<open>modbus_crc16\<close>.\<close>

definition crc_bit_step :: "u16 \<Rightarrow> u16" where
  "crc_bit_step crc =
     (if crc AND 0x0001 \<noteq> 0 then drop_bit 1 crc XOR 0xA001 else drop_bit 1 crc)"

text \<open>\<^verbatim>\<open>for (uint8_t j = 0; j < 8; j++)\<close>\<close>

function crc_inner :: "u8 \<Rightarrow> u16 \<Rightarrow> u16" where
  "crc_inner j crc = (if j < 8 then crc_inner (j + 1) (crc_bit_step crc) else crc)"
  by pat_completeness auto
termination
  by (relation "measure (\<lambda>(j, crc). 8 - unat j)")
    (simp_all add: word_less_nat_alt unat_word_ariths)

declare crc_inner.simps [simp del]

text \<open>\<^verbatim>\<open>for (uint16_t i = 0; i < length; i++)\<close>, carrying \<open>crc\<close> and the log of loads.\<close>

function crc_outer :: "buffer \<Rightarrow> u16 \<Rightarrow> u16 \<Rightarrow> u16 \<times> nat list \<Rightarrow> u16 \<times> nat list" where
  "crc_outer data len i (crc, tr) =
     (if i < len
      then (let (b, tr') = ld data (unat i) tr
            in crc_outer data len (i + 1) (crc_inner 0 (crc XOR ucast b), tr'))
      else (crc, tr))"
  by pat_completeness auto

termination
proof (relation "measure (\<lambda>(data, len, i, acc). unat len - unat i)")
  show "wf (measure (\<lambda>(data, len, i, acc). unat len - unat i))"
    by simp
next
  fix data :: buffer and len i crc :: u16 and tr :: "nat list" and x xa y
  assume "i < len"
  then have "unat i < unat len"
    by (simp add: word_less_nat_alt)
  moreover from \<open>i < len\<close> have "unat (i + 1) = Suc (unat i)"
    by (metis (no_types, lifting) add.commute add_0 inc_i inc_le
      unat_plus_simple unsigned_0 unsigned_1 word_gt_0 Suc_eq_plus1)
  ultimately show "((data, len, i + 1, crc_inner 0 (crc XOR ucast xa), y), data, len, i, crc, tr)
      \<in> measure (\<lambda>(data, len, i, acc). unat len - unat i)"
    by simp
qed

declare crc_outer.simps [simp del]

text \<open>
  \<^verbatim>\<open>uint16_t modbus_crc16(uint8_t* data, uint16_t length)\<close>: the checksum and the
  offsets of \<open>data\<close> it loaded.
\<close>

definition modbus_crc16 :: "buffer \<Rightarrow> u16 \<Rightarrow> u16 \<times> nat list" where
  "modbus_crc16 data len = crc_outer data len 0 (0xFFFF, [])"

section \<open>Request processing\<close>

text \<open>
  \<^verbatim>\<open>void modbus_process_request(uint8_t* request, uint16_t request_length)\<close>: the
  state after the call, and the offsets of \<open>request\<close> loaded during the call, in
  order. The local array \<^verbatim>\<open>response\<close> has no initial value in the source; only
  the cells written before are read. The four cases that the \<^verbatim>\<open>switch\<close> lists
  have empty bodies.
\<close>

definition modbus_process_request :: "buffer \<Rightarrow> u16 \<Rightarrow> modbus_state \<Rightarrow> modbus_state \<times> nat list" where
  "modbus_process_request request request_length s =
     (if request_length < 5 then (s, [])
      else
        let (slave_addr, tr) = ld request 0 [];
            (function_code, tr) = ld request 1 tr;
            (r2, tr) = ld request 2 tr;
            (r3, tr) = ld request 3 tr;
            address = (push_bit 8 (ucast r2) OR ucast r3 :: u16);
            (r4, tr) = ld request 4 tr;
            (r5, tr) = ld request 5 tr;
            count = (push_bit 8 (ucast r4) OR ucast r5 :: u16);
            (crc_calc, tr_crc) = modbus_crc16 request (request_length - 2);
            tr = tr @ tr_crc;
            (hi, tr) = ld request (unat request_length - 1) tr;
            (lo, tr) = ld request (unat request_length - 2) tr;
            crc_received = (push_bit 8 (ucast hi) OR ucast lo :: u16)
        in if crc_calc \<noteq> crc_received then (s, tr)
           else
             let response = (\<lambda>_. 0) :: buffer;
                 response_length = 0 :: u16
             in if slave_addr \<noteq> 0x01 then (s, tr)
                else
                  let (response, response_length) =
                        (if function_code = FC_READ_COILS then (response, response_length)
                         else if function_code = FC_READ_HOLDING_REGS then (response, response_length)
                         else if function_code = FC_WRITE_SINGLE_COIL then (response, response_length)
                         else if function_code = FC_WRITE_SINGLE_REG then (response, response_length)
                         else (response(0 := slave_addr,
                                        1 := function_code OR 0x80,
                                        2 := ERROR_ILLEGAL_FUNCTION), 3))
                  in if response_length > 0
                     then
                       let crc = fst (modbus_crc16 response response_length);
                           response = response(unat response_length := ucast (crc AND 0xFF));
                           response_length = response_length + 1;
                           response = response(unat response_length := ucast (drop_bit 8 crc));
                           response_length = response_length + 1
                       in (s\<lparr>uart_tx := uart_tx s @ [map response [0..<unat response_length]]\<rparr>, tr)
                     else (s, tr))"

section \<open>Polling\<close>

text \<open>
  The \<^verbatim>\<open>while (uart_receive(&byte))\<close> loop of \<^verbatim>\<open>modbus_poll\<close>, over the bytes
  that \<^verbatim>\<open>uart_receive\<close> delivers before it returns false. \<^verbatim>\<open>rx_buffer\<close> has 256
  cells: a store at an index from 256 on is outside the array.
\<close>

fun rx_loop :: "u8 list \<Rightarrow> modbus_state \<Rightarrow> error + modbus_state" where
  "rx_loop [] s = Inr s"
| "rx_loop (byte # bytes) s =
     (if unat (rx_length s) < 256
      then
        let s = s\<lparr>rx_buffer := (rx_buffer s)(unat (rx_length s) := byte),
                  rx_length := rx_length s + 1\<rparr>;
            s = (if rx_length s > 4 then s\<lparr>frame_received := True\<rparr> else s);
            s = (if rx_length s \<ge> 256 then s\<lparr>rx_length := 0\<rparr> else s)
        in rx_loop bytes s
      else Inl (BufferOverflow (unat (rx_length s))))"

text \<open>\<^verbatim>\<open>void modbus_poll(void)\<close>, called with the bytes the UART holds.\<close>

definition modbus_poll :: "u8 list \<Rightarrow> modbus_state \<Rightarrow> error + modbus_state" where
  "modbus_poll bytes s =
     (case rx_loop bytes s of
        Inl e \<Rightarrow> Inl e
      | Inr s \<Rightarrow>
          if frame_received s
          then
            let s = s\<lparr>handed := handed s @ [map (rx_buffer s) [0..<unat (rx_length s)]]\<rparr>;
                s = fst (modbus_process_request (rx_buffer s) (rx_length s) s)
            in Inr (s\<lparr>rx_length := 0, frame_received := False\<rparr>)
          else Inr s)"

text \<open>Successive calls of \<^verbatim>\<open>modbus_poll\<close> from the main loop.\<close>

fun poll_seq :: "u8 list list \<Rightarrow> modbus_state \<Rightarrow> error + modbus_state" where
  "poll_seq [] s = Inr s"
| "poll_seq (bytes # rest) s =
     (case modbus_poll bytes s of Inl e \<Rightarrow> Inl e | Inr s' \<Rightarrow> poll_seq rest s')"

section \<open>The specification's notions\<close>

text \<open>
  The standard Modbus CRC-16 as a shift register fed one message bit at a time: the
  register starts at \<open>0xFFFF\<close>; each byte contributes its bits least significant bit
  first; a bit is shifted in by comparing it with the lowest register bit, shifting the
  register right by one, and adding the polynomial \<open>0xA001\<close> when the two bits
  differ; the register is the result, with no final XOR.
\<close>

definition crc_shift_bit :: "u16 \<Rightarrow> bool \<Rightarrow> u16" where
  "crc_shift_bit r b = (if bit r 0 \<noteq> b then drop_bit 1 r XOR 0xA001 else drop_bit 1 r)"

definition byte_bits :: "u8 \<Rightarrow> bool list" where
  "byte_bits b = map (bit b) [0..<8]"

definition crc16_spec :: "u8 list \<Rightarrow> u16" where
  "crc16_spec bs = foldl crc_shift_bit 0xFFFF (concat (map byte_bits bs))"

definition low_byte :: "u16 \<Rightarrow> u8" where
  "low_byte w = ucast (w AND 0xFF)"

definition high_byte :: "u16 \<Rightarrow> u8" where
  "high_byte w = ucast (drop_bit 8 w)"

text \<open>
  A frame's checksum is valid when its last two bytes are the low byte, then the high
  byte, of the CRC-16 of all the bytes before them.
\<close>

definition checksum_ok :: "u8 list \<Rightarrow> bool" where
  "checksum_ok frame =
     (let n = length frame; crc = crc16_spec (take (n - 2) frame)
      in frame ! (n - 2) = low_byte crc \<and> frame ! (n - 1) = high_byte crc)"

text \<open>
  The exception response of the wire format: station address, function code with the
  high bit set, exception code, CRC low byte, CRC high byte.
\<close>

definition exception_response :: "u8 \<Rightarrow> u8 \<Rightarrow> u8 \<Rightarrow> u8 list" where
  "exception_response station fc code =
     (let body = [station, fc OR 0x80, code]; crc = crc16_spec body
      in body @ [low_byte crc, high_byte crc])"

text \<open>The frame that a call receives: the first \<open>request_length\<close> bytes behind \<open>request\<close>.\<close>

definition frame_of :: "buffer \<Rightarrow> u16 \<Rightarrow> u8 list" where
  "frame_of request request_length = map request [0..<unat request_length]"

section \<open>The CRC loops compute the standard CRC-16\<close>

lemma unat_succ_below: "i < (n :: 'a::len word) \<Longrightarrow> unat (i + 1) = Suc (unat i)"
  by (metis (no_types, lifting) add.commute add_0 inc_i inc_le
    unat_plus_simple unsigned_0 unsigned_1 word_gt_0 Suc_eq_plus1)

lemma crc_inner_funpow:
  "unat j \<le> 8 \<Longrightarrow> crc_inner j crc = (crc_bit_step ^^ (8 - unat j)) crc"
proof (induction j crc rule: crc_inner.induct)
  case (1 j crc)
  show ?case
  proof (cases "j < 8")
    case True
    then have u: "unat (j + 1) = Suc (unat j)" by (rule unat_succ_below)
    from True have "unat j < 8" by (simp add: word_less_nat_alt)
    with u have le: "unat (j + 1) \<le> 8" by simp
    have "crc_inner j crc = crc_inner (j + 1) (crc_bit_step crc)"
      using True by (subst crc_inner.simps) simp
    also have "\<dots> = (crc_bit_step ^^ (8 - unat (j + 1))) (crc_bit_step crc)"
      using "1.IH" [OF True le] .
    also have "\<dots> = (crc_bit_step ^^ (8 - unat j)) crc"
    proof -
      from \<open>unat j < 8\<close> have "8 - unat j = Suc (7 - unat j)" by simp
      then show ?thesis using u by (simp add: funpow_swap1)
    qed
    finally show ?thesis .
  next
    case False
    then have "unat j \<ge> 8" by (simp add: word_less_nat_alt)
    with "1.prems" have "unat j = 8" by simp
    then show ?thesis using False by (subst crc_inner.simps) simp
  qed
qed

lemma and_1_neq_0_iff_odd: "(r AND 1 \<noteq> 0) = odd (r :: 'a::len word)"
  by (metis even_word_def even_word_iff)

lemma crc_bit_step_xor:
  "crc_bit_step (r XOR d) = crc_shift_bit r (bit d 0) XOR drop_bit 1 d"
proof -
  have "((r XOR d) AND 1 \<noteq> 0) = (odd r \<noteq> odd d)"
    by (simp only: and_1_neq_0_iff_odd even_xor_iff) auto
  then show ?thesis
    by (simp add: crc_bit_step_def crc_shift_bit_def bit_0 xor.assoc xor.commute xor.left_commute)
qed

lemma crc_funpow_xor:
  "(crc_bit_step ^^ k) (r XOR d) = foldl crc_shift_bit r (map (bit d) [0..<k]) XOR drop_bit k d"
proof (induction k)
  case 0
  show ?case by simp
next
  case (Suc k)
  have "(crc_bit_step ^^ Suc k) (r XOR d)
      = crc_bit_step (foldl crc_shift_bit r (map (bit d) [0..<k]) XOR drop_bit k d)"
    by (simp add: Suc.IH)
  also have "\<dots> = crc_shift_bit (foldl crc_shift_bit r (map (bit d) [0..<k])) (bit (drop_bit k d) 0)
      XOR drop_bit 1 (drop_bit k d)"
    by (rule crc_bit_step_xor)
  also have "bit (drop_bit k d) 0 = bit d k"
    by (simp add: bit_iff_odd_drop_bit bit_0)
  also have "drop_bit 1 (drop_bit k d) = drop_bit (Suc k) d"
    by simp
  finally show ?case by simp
qed

lemma crc_inner_byte:
  "crc_inner 0 (crc XOR ucast (b :: u8)) = foldl crc_shift_bit crc (byte_bits b)"
proof -
  have high: "drop_bit 8 (ucast b :: u16) = 0"
    by (rule bit_word_eqI) (auto simp add: bit_simps dest: bit_imp_le_length)
  have low: "map (bit (ucast b :: u16)) [0..<8] = map (bit b) [0..<8]"
    by (rule map_cong) (auto simp add: bit_simps)
  have "crc_inner 0 (crc XOR ucast b)
      = foldl crc_shift_bit crc (map (bit (ucast b :: u16)) [0..<8]) XOR drop_bit 8 (ucast b)"
    by (simp add: crc_inner_funpow crc_funpow_xor)
  also have "\<dots> = foldl crc_shift_bit crc (byte_bits b)"
    unfolding high low byte_bits_def by simp
  finally show ?thesis .
qed

lemma crc_outer_eq:
  "i \<le> len \<Longrightarrow> crc_outer data len i (crc, tr) =
     (foldl crc_shift_bit crc (concat (map byte_bits (map data [unat i..<unat len]))),
      tr @ [unat i..<unat len])"
proof (induction data len i "(crc, tr)" arbitrary: crc tr rule: crc_outer.induct)
  case (1 data len i crc tr)
  show ?case
  proof (cases "i < len")
    case True
    then have u: "unat (i + 1) = Suc (unat i)" by (rule unat_succ_below)
    from True have lt: "unat i < unat len" by (simp add: word_less_nat_alt)
    with u have le: "i + 1 \<le> len" by (simp add: word_le_nat_alt)
    have "crc_outer data len i (crc, tr) =
        crc_outer data len (i + 1) (crc_inner 0 (crc XOR ucast (data (unat i))), tr @ [unat i])"
      using True by (subst crc_outer.simps) (simp add: ld_def)
    also have "\<dots> = (foldl crc_shift_bit (crc_inner 0 (crc XOR ucast (data (unat i))))
          (concat (map byte_bits (map data [unat (i + 1)..<unat len]))),
        (tr @ [unat i]) @ [unat (i + 1)..<unat len])"
      by (rule "1.hyps" [OF True _ _ le]) (simp_all add: ld_def)
    also have "\<dots> = (foldl crc_shift_bit crc (concat (map byte_bits (map data [unat i..<unat len]))),
        tr @ [unat i..<unat len])"
      using lt by (simp add: u crc_inner_byte upt_conv_Cons)
    finally show ?thesis .
  next
    case False
    with "1.prems" have "i = len" by simp
    then show ?thesis by (subst crc_outer.simps) simp
  qed
qed

lemma modbus_crc16_eq:
  "modbus_crc16 data len = (crc16_spec (map data [0..<unat len]), [0..<unat len])"
  by (simp add: modbus_crc16_def crc16_spec_def crc_outer_eq)

lemma crc16_known_vector:
  "fst (modbus_crc16 (mem_of [0x01, 0x03, 0x00, 0x00, 0x00, 0x01]) 6) = 0x0A84"
  by code_simp

text \<open>
  C4. \<^verbatim>\<open>modbus_crc16\<close> over the first \<open>len\<close> bytes of \<open>data\<close> is the standard
  Modbus CRC-16 of these bytes (polynomial \<open>0xA001\<close>, initial value \<open>0xFFFF\<close>,
  least significant bit first, no final XOR), and on the bytes
  \<open>01 03 00 00 00 01\<close> it returns \<open>0x0A84\<close>.
\<close>

theorem modbus_crc16_standard:
  "fst (modbus_crc16 data len) = crc16_spec (map data [0..<unat len]) \<and>
   fst (modbus_crc16 (mem_of [0x01, 0x03, 0x00, 0x00, 0x00, 0x01]) 6) = 0x0A84"
proof
  show "fst (modbus_crc16 data len) = crc16_spec (map data [0..<unat len])"
    by (simp add: modbus_crc16_eq)
  show "fst (modbus_crc16 (mem_of [0x01, 0x03, 0x00, 0x00, 0x00, 0x01]) 6) = 0x0A84"
    by (rule crc16_known_vector)
qed

section \<open>What a call of the request handler does\<close>

lemma ff_mask: "(0xFF :: u16) = mask 8"
  by (simp add: mask_eq_exp_minus_1)

lemma low_byte_cat: "low_byte (push_bit 8 (ucast hi) OR ucast lo) = lo" for hi lo :: u8
  unfolding low_byte_def ff_mask
  by (rule bit_word_eqI) (auto simp add: bit_simps)

lemma high_byte_cat: "high_byte (push_bit 8 (ucast hi) OR ucast lo) = hi" for hi lo :: u8
  unfolding high_byte_def
  by (rule bit_word_eqI) (auto simp add: bit_simps dest: bit_imp_le_length)

lemma cat_bytes: "push_bit 8 (ucast (high_byte w)) OR ucast (low_byte w) = w"
  unfolding high_byte_def low_byte_def ff_mask
proof (rule bit_word_eqI)
  fix n assume "n < LENGTH(16)"
  then show "bit (push_bit 8 (ucast (ucast (drop_bit 8 w) :: u8)) OR ucast (ucast (w AND mask 8) :: u8) :: u16) n = bit w n"
    by (cases "n < 8") (auto simp add: bit_simps)
qed

lemma word16_bytes:
  "(w = (push_bit 8 (ucast hi) OR ucast lo :: u16)) = (lo = low_byte w \<and> hi = high_byte w)"
  for hi lo :: u8
  using low_byte_cat high_byte_cat cat_bytes by metis


lemma upt_3: "[0..<3] = [0, 1, 2]" by (simp add: upt_rec)
lemma upt_5: "[0..<5] = [0, 1, 2, 3, 4]" by (simp add: upt_rec)

lemma process_short:
  "request_length < 5 \<Longrightarrow> modbus_process_request request request_length s = (s, [])"
  by (simp add: modbus_process_request_def)

lemma unat_ge_5: "\<not> len < (5 :: u16) \<Longrightarrow> 5 \<le> unat len"
  by (simp add: word_less_nat_alt)

lemma unat_minus_2: "\<not> len < (5 :: u16) \<Longrightarrow> unat (len - 2) = unat len - 2"
  by (simp add: unat_sub word_le_nat_alt word_less_nat_alt)

lemma checksum_ok_frame:
  assumes "\<not> len < 5"
  shows "checksum_ok (frame_of request len) =
    (fst (modbus_crc16 request (len - 2)) =
       push_bit 8 (ucast (request (unat len - 1))) OR ucast (request (unat len - 2)))"
proof -
  from assms have n: "5 \<le> unat len" by (rule unat_ge_5)
  have t: "take (unat len - 2) (map request [0..<unat len]) = map request [0..<unat len - 2]"
    using n by (simp add: take_map)
  show ?thesis
    using n by (simp add: checksum_ok_def frame_of_def Let_def t modbus_crc16_eq
        unat_minus_2 [OF assms] word16_bytes)
qed

lemma process_long:
  assumes "\<not> request_length < 5"
  shows "modbus_process_request request request_length s =
    ((if checksum_ok (frame_of request request_length) \<and> request 0 = 0x01 \<and>
         request 1 \<noteq> FC_READ_COILS \<and> request 1 \<noteq> FC_READ_HOLDING_REGS \<and>
         request 1 \<noteq> FC_WRITE_SINGLE_COIL \<and> request 1 \<noteq> FC_WRITE_SINGLE_REG
      then s\<lparr>uart_tx := uart_tx s @ [exception_response (request 0) (request 1) ERROR_ILLEGAL_FUNCTION]\<rparr>
      else s),
     [0, 1, 2, 3, 4, 5] @ [0..<unat request_length - 2] @
     [unat request_length - 1, unat request_length - 2])"
  using assms
  by (simp add: modbus_process_request_def checksum_ok_frame ld_def Let_def split_def
      modbus_crc16_eq unat_minus_2 exception_response_def upt_3 upt_5
      low_byte_def high_byte_def)

lemma frame_of_nth: "i < unat len \<Longrightarrow> frame_of request len ! i = request i"
  by (simp add: frame_of_def)

lemma frame_of_length: "length (frame_of request len) = unat len"
  by (simp add: frame_of_def)

lemma not_short_iff: "(\<not> len < (5 :: u16)) = (5 \<le> unat len)"
  by (simp add: word_less_nat_alt not_less)

lemma reads_of_request:
  "\<not> request_length < 5 \<Longrightarrow>
     snd (modbus_process_request request request_length s) =
       [0, 1, 2, 3, 4, 5] @ [0..<unat request_length - 2] @
       [unat request_length - 1, unat request_length - 2]"
  by (simp add: process_long)

section \<open>Loads from the request buffer\<close>

text \<open>
  From six bytes on, every offset the handler loads lies inside the frame.
\<close>

lemma reads_within_longer_frames:
  assumes "6 \<le> unat request_length"
  shows "\<forall>i \<in> set (snd (modbus_process_request request request_length s)). i < unat request_length"
proof -
  from assms have "\<not> request_length < 5" by (simp add: word_less_nat_alt)
  then show ?thesis using assms by (auto simp add: reads_of_request)
qed

text \<open>
  A frame of exactly five bytes passes the length check, and the decoding of the
  quantity field loads \<^verbatim>\<open>request[5]\<close>, whatever the buffer and the state are.
\<close>

lemma five_byte_frames_read_past_end:
  "snd (modbus_process_request request 5 s) = [0, 1, 2, 3, 4, 5, 0, 1, 2, 4, 3]"
  by (simp add: reads_of_request upt_3)

text \<open>
  C1. The claim is that a frame of \<open>request_length \<ge> 5\<close> bytes is decoded by loads at
  offsets below \<open>request_length\<close> only. On the five byte frame \<open>01 07 00 22 30\<close> (its
  checksum is valid) the handler loads the offsets 0 to 5, then 0 to 2 for the CRC, then
  4 and 3: offset 5 is behind the frame.
\<close>

theorem five_byte_frame_loads_offset_5:
  "snd (modbus_process_request (mem_of [0x01, 0x07, 0x00, 0x22, 0x30]) 5 initial_state)
     = [0, 1, 2, 3, 4, 5, 0, 1, 2, 4, 3]"
  by code_simp

section \<open>Dropped frames\<close>

text \<open>
  C5. A frame shorter than five bytes, or one whose last two bytes are not the low and
  high byte of the CRC-16 of the bytes before them, leaves the whole state as it was:
  nothing is passed to \<^verbatim>\<open>uart_send\<close> and the four banks keep their contents.
\<close>

theorem malformed_frame_dropped:
  assumes "length (frame_of request request_length) < 5 \<or>
           \<not> checksum_ok (frame_of request request_length)"
  shows "fst (modbus_process_request request request_length s) = s"
proof (cases "request_length < 5")
  case True
  then show ?thesis by (simp add: process_short)
next
  case False
  with assms have "\<not> checksum_ok (frame_of request request_length)"
    by (simp add: frame_of_length not_short_iff)
  with False show ?thesis by (simp add: process_long)
qed

lemma bad_crc_example:
  "\<not> checksum_ok (frame_of (mem_of [0x01, 0x03, 0x00, 0x00, 0x00, 0x01, 0x84, 0x0B]) 8)"
  by code_simp

theorem malformed_frame_dropped_witness:
  "\<not> checksum_ok (frame_of (mem_of [0x01, 0x03, 0x00, 0x00, 0x00, 0x01, 0x84, 0x0B]) 8) \<and>
   fst (modbus_process_request (mem_of [0x01, 0x03, 0x00, 0x00, 0x00, 0x01, 0x84, 0x0B]) 8 initial_state)
     = initial_state"
  using malformed_frame_dropped
    [of "mem_of [0x01, 0x03, 0x00, 0x00, 0x00, 0x01, 0x84, 0x0B]" 8 initial_state]
    bad_crc_example
  by simp

section \<open>The data store\<close>

text \<open>
  C9. No call of the request handler changes any of the four banks, whatever the frame:
  the cases of the write function codes 0x05 and 0x06 are empty, and 0x0F and 0x10 fall
  to the default case, which only builds an exception response.
\<close>

theorem banks_never_modified:
  "coils (fst (modbus_process_request request request_length s)) = coils s \<and>
   discrete_inputs (fst (modbus_process_request request request_length s)) = discrete_inputs s \<and>
   holding_registers (fst (modbus_process_request request request_length s)) = holding_registers s \<and>
   input_registers (fst (modbus_process_request request request_length s)) = input_registers s"
  by (cases "request_length < 5") (simp_all add: process_short process_long)

section \<open>Broadcast\<close>

text \<open>
  C2, as claimed: a broadcast frame (station address 0) with a valid checksum that asks
  for a write has the write applied to the store and produces no response. The frame
  \<open>00 06 00 0A 04 D2 2A 84\<close> asks to write 0x04D2 to holding register 10; after the
  call register 10 does not hold the value.
\<close>

theorem broadcast_write_not_applied:
  "checksum_ok [0x00, 0x06, 0x00, 0x0A, 0x04, 0xD2, 0x2A, 0x84] \<and>
   \<not> (holding_registers (fst (modbus_process_request
            (mem_of [0x00, 0x06, 0x00, 0x0A, 0x04, 0xD2, 0x2A, 0x84]) 8 initial_state))
         = (holding_registers initial_state)[10 := 0x04D2] \<and>
       uart_tx (fst (modbus_process_request
            (mem_of [0x00, 0x06, 0x00, 0x0A, 0x04, 0xD2, 0x2A, 0x84]) 8 initial_state)) = [])"
  by code_simp

text \<open>
  C2, amended: a frame with a valid checksum, station address 0 and a write function
  code is dropped by the address check: the state stays as it was, so the write is not
  applied and nothing is passed to \<^verbatim>\<open>uart_send\<close>.
\<close>

theorem broadcast_frame_dropped:
  assumes "checksum_ok (frame_of request request_length)"
    and "frame_of request request_length ! 0 = 0x00"
    and "frame_of request request_length ! 1 \<in>
           {FC_WRITE_SINGLE_COIL, FC_WRITE_SINGLE_REG, FC_WRITE_MULTIPLE_COILS, FC_WRITE_MULTIPLE_REGS}"
  shows "fst (modbus_process_request request request_length s) = s"
proof (cases "request_length < 5")
  case True
  then show ?thesis by (simp add: process_short)
next
  case False
  then have "0 < unat request_length" by (simp add: not_short_iff)
  with assms(2) have "request 0 = 0x00" by (simp add: frame_of_nth)
  with False show ?thesis by (simp add: process_long)
qed

lemma broadcast_example:
  "checksum_ok (frame_of (mem_of [0x00, 0x06, 0x00, 0x0A, 0x04, 0xD2, 0x2A, 0x84]) 8) \<and>
   frame_of (mem_of [0x00, 0x06, 0x00, 0x0A, 0x04, 0xD2, 0x2A, 0x84]) 8 ! 0 = 0x00 \<and>
   frame_of (mem_of [0x00, 0x06, 0x00, 0x0A, 0x04, 0xD2, 0x2A, 0x84]) 8 ! 1 = FC_WRITE_SINGLE_REG"
  by code_simp

theorem broadcast_frame_dropped_witness:
  "checksum_ok (frame_of (mem_of [0x00, 0x06, 0x00, 0x0A, 0x04, 0xD2, 0x2A, 0x84]) 8) \<and>
   frame_of (mem_of [0x00, 0x06, 0x00, 0x0A, 0x04, 0xD2, 0x2A, 0x84]) 8 ! 0 = 0x00 \<and>
   frame_of (mem_of [0x00, 0x06, 0x00, 0x0A, 0x04, 0xD2, 0x2A, 0x84]) 8 ! 1 = FC_WRITE_SINGLE_REG \<and>
   fst (modbus_process_request (mem_of [0x00, 0x06, 0x00, 0x0A, 0x04, 0xD2, 0x2A, 0x84]) 8 initial_state)
     = initial_state"
  using broadcast_frame_dropped
    [of "mem_of [0x00, 0x06, 0x00, 0x0A, 0x04, 0xD2, 0x2A, 0x84]" 8 initial_state]
    broadcast_example
  by simp

section \<open>Function codes\<close>

text \<open>
  The four function codes that the \<^verbatim>\<open>switch\<close> lists (0x01, 0x03, 0x05, 0x06) are
  not answered at all; every other function code, the standard codes 0x02, 0x04, 0x0F and
  0x10 among them, is answered by the default case.
\<close>

lemma listed_codes_unanswered:
  assumes "request 1 \<in> {FC_READ_COILS, FC_READ_HOLDING_REGS, FC_WRITE_SINGLE_COIL, FC_WRITE_SINGLE_REG}"
  shows "fst (modbus_process_request request request_length s) = s"
  using assms by (cases "request_length < 5") (auto simp add: process_short process_long)

lemma unlisted_codes_rejected:
  assumes "\<not> request_length < 5" and "checksum_ok (frame_of request request_length)"
    and "request 0 = 0x01"
    and "request 1 \<notin> {FC_READ_COILS, FC_READ_HOLDING_REGS, FC_WRITE_SINGLE_COIL, FC_WRITE_SINGLE_REG}"
  shows "uart_tx (fst (modbus_process_request request request_length s)) =
           uart_tx s @ [exception_response 0x01 (request 1) ERROR_ILLEGAL_FUNCTION]"
  using assms by (simp add: process_long)

text \<open>
  C3, as claimed: each of the eight standard function codes is recognized and is not
  answered with the exception IllegalFunction. The frames \<open>01 02 00 00 00 01 B9 CA\<close>
  (read discrete inputs, one input from address 0, valid checksum, station 1) and
  \<open>01 04 00 00 00 01 31 CA\<close> (read input registers) are answered with
  \<open>01 82 01 81 60\<close> and \<open>01 84 01 82 C0\<close>: the function code with the high bit set and
  the exception code 0x01.
\<close>

theorem standard_codes_rejected:
  "checksum_ok [0x01, 0x02, 0x00, 0x00, 0x00, 0x01, 0xB9, 0xCA] \<and>
   uart_tx (fst (modbus_process_request
      (mem_of [0x01, 0x02, 0x00, 0x00, 0x00, 0x01, 0xB9, 0xCA]) 8 initial_state))
     = [[0x01, 0x82, ERROR_ILLEGAL_FUNCTION, 0x81, 0x60]] \<and>
   checksum_ok [0x01, 0x04, 0x00, 0x00, 0x00, 0x01, 0x31, 0xCA] \<and>
   uart_tx (fst (modbus_process_request
      (mem_of [0x01, 0x04, 0x00, 0x00, 0x00, 0x01, 0x31, 0xCA]) 8 initial_state))
     = [[0x01, 0x84, ERROR_ILLEGAL_FUNCTION, 0x82, 0xC0]]"
  by code_simp

text \<open>
  C3, amended: a frame of at least five bytes with a valid checksum and station address
  1 is not answered with the exception IllegalFunction (nor with anything else) when
  its function code is 0x01, 0x03, 0x05 or 0x06, the codes the \<^verbatim>\<open>switch\<close> lists; with
  any other function code, 0x02, 0x04, 0x0F and 0x10 included, it is answered with the
  exception response for IllegalFunction.
\<close>

theorem function_code_dispatch:
  assumes "5 \<le> length (frame_of request request_length)"
    and "checksum_ok (frame_of request request_length)"
    and "frame_of request request_length ! 0 = 0x01"
    and "frame_of request request_length ! 1 = fc"
  shows "uart_tx (fst (modbus_process_request request request_length s)) =
           (if fc \<in> {FC_READ_COILS, FC_READ_HOLDING_REGS, FC_WRITE_SINGLE_COIL, FC_WRITE_SINGLE_REG}
            then uart_tx s
            else uart_tx s @ [exception_response 0x01 fc ERROR_ILLEGAL_FUNCTION])"
proof -
  from assms(1) have n: "5 \<le> unat request_length" by (simp add: frame_of_length)
  then have long: "\<not> request_length < 5" by (simp add: not_short_iff)
  from n assms(3,4) have "request 0 = 0x01" "request 1 = fc"
    by (simp_all add: frame_of_nth)
  with assms(2) long show ?thesis
    by (simp add: process_long)
qed

lemma dispatch_examples:
  "5 \<le> length (frame_of (mem_of [0x01, 0x02, 0x00, 0x00, 0x00, 0x01, 0xB9, 0xCA]) 8) \<and>
   checksum_ok (frame_of (mem_of [0x01, 0x02, 0x00, 0x00, 0x00, 0x01, 0xB9, 0xCA]) 8) \<and>
   frame_of (mem_of [0x01, 0x02, 0x00, 0x00, 0x00, 0x01, 0xB9, 0xCA]) 8 ! 0 = 0x01 \<and>
   frame_of (mem_of [0x01, 0x02, 0x00, 0x00, 0x00, 0x01, 0xB9, 0xCA]) 8 ! 1 = 0x02 \<and>
   exception_response 0x01 0x02 ERROR_ILLEGAL_FUNCTION = [0x01, 0x82, 0x01, 0x81, 0x60] \<and>
   5 \<le> length (frame_of (mem_of [0x01, 0x05, 0x00, 0x00, 0xFF, 0x00, 0x8C, 0x3A]) 8) \<and>
   checksum_ok (frame_of (mem_of [0x01, 0x05, 0x00, 0x00, 0xFF, 0x00, 0x8C, 0x3A]) 8) \<and>
   frame_of (mem_of [0x01, 0x05, 0x00, 0x00, 0xFF, 0x00, 0x8C, 0x3A]) 8 ! 0 = 0x01 \<and>
   frame_of (mem_of [0x01, 0x05, 0x00, 0x00, 0xFF, 0x00, 0x8C, 0x3A]) 8 ! 1 = 0x05"
  by code_simp

theorem function_code_dispatch_witness:
  "checksum_ok (frame_of (mem_of [0x01, 0x02, 0x00, 0x00, 0x00, 0x01, 0xB9, 0xCA]) 8) \<and>
   uart_tx (fst (modbus_process_request
      (mem_of [0x01, 0x02, 0x00, 0x00, 0x00, 0x01, 0xB9, 0xCA]) 8 initial_state))
     = uart_tx initial_state @ [[0x01, 0x82, 0x01, 0x81, 0x60]] \<and>
   checksum_ok (frame_of (mem_of [0x01, 0x05, 0x00, 0x00, 0xFF, 0x00, 0x8C, 0x3A]) 8) \<and>
   uart_tx (fst (modbus_process_request
      (mem_of [0x01, 0x05, 0x00, 0x00, 0xFF, 0x00, 0x8C, 0x3A]) 8 initial_state))
     = uart_tx initial_state"
  using function_code_dispatch
      [of "mem_of [0x01, 0x02, 0x00, 0x00, 0x00, 0x01, 0xB9, 0xCA]" 8 "0x02" initial_state]
    function_code_dispatch
      [of "mem_of [0x01, 0x05, 0x00, 0x00, 0xFF, 0x00, 0x8C, 0x3A]" 8 "0x05" initial_state]
    dispatch_examples
  by simp

text \<open>
  C7, as claimed: every frame with a valid checksum, station address 1 and an
  unrecognized function code is answered with the five byte exception response. The four
  byte frame \<open>01 07 41 E2\<close> (read exception status) has a valid checksum, station
  address 1 and the unrecognized function code 0x07; the length check drops it and
  nothing is transmitted.
\<close>

theorem short_frame_unanswered:
  "checksum_ok [0x01, 0x07, 0x41, 0xE2] \<and>
   frame_of (mem_of [0x01, 0x07, 0x41, 0xE2]) 4 = [0x01, 0x07, 0x41, 0xE2] \<and>
   exception_response 0x01 0x07 ERROR_ILLEGAL_FUNCTION = [0x01, 0x87, 0x01, 0x82, 0x30] \<and>
   uart_tx (fst (modbus_process_request (mem_of [0x01, 0x07, 0x41, 0xE2]) 4 initial_state))
     \<noteq> [[0x01, 0x87, 0x01, 0x82, 0x30]]"
  by code_simp

text \<open>
  C7, amended: every frame of at least five bytes with a valid checksum, station address
  1 and an unrecognized function code \<open>fc\<close> (one the \<^verbatim>\<open>switch\<close> does not list) makes
  the handler transmit exactly the five bytes station address, \<open>fc OR 0x80\<close>, 0x01, then
  the low and the high byte of the CRC-16 of these three bytes.
\<close>

theorem illegal_function_response:
  assumes "5 \<le> length (frame_of request request_length)"
    and "checksum_ok (frame_of request request_length)"
    and "frame_of request request_length ! 0 = 0x01"
    and "frame_of request request_length ! 1 = fc"
    and "fc \<notin> {FC_READ_COILS, FC_READ_HOLDING_REGS, FC_WRITE_SINGLE_COIL, FC_WRITE_SINGLE_REG}"
  shows "uart_tx (fst (modbus_process_request request request_length s)) =
           uart_tx s @ [[0x01, fc OR 0x80, ERROR_ILLEGAL_FUNCTION,
                         low_byte (crc16_spec [0x01, fc OR 0x80, ERROR_ILLEGAL_FUNCTION]),
                         high_byte (crc16_spec [0x01, fc OR 0x80, ERROR_ILLEGAL_FUNCTION])]]"
proof -
  from assms(1) have n: "5 \<le> unat request_length" by (simp add: frame_of_length)
  then have long: "\<not> request_length < 5" by (simp add: not_short_iff)
  from n assms(3,4) have "request 0 = 0x01" "request 1 = fc"
    by (simp_all add: frame_of_nth)
  with assms(2,5) long show ?thesis
    by (simp add: process_long exception_response_def Let_def)
qed

lemma illegal_function_example:
  "5 \<le> length (frame_of (mem_of [0x01, 0x07, 0x00, 0x22, 0x30]) 5) \<and>
   checksum_ok (frame_of (mem_of [0x01, 0x07, 0x00, 0x22, 0x30]) 5) \<and>
   frame_of (mem_of [0x01, 0x07, 0x00, 0x22, 0x30]) 5 ! 0 = 0x01 \<and>
   frame_of (mem_of [0x01, 0x07, 0x00, 0x22, 0x30]) 5 ! 1 = 0x07 \<and>
   low_byte (crc16_spec [0x01, 0x07 OR 0x80, 0x01]) = 0x82 \<and>
   high_byte (crc16_spec [0x01, 0x07 OR 0x80, 0x01]) = 0x30"
  by code_simp

theorem illegal_function_response_witness:
  "5 \<le> length (frame_of (mem_of [0x01, 0x07, 0x00, 0x22, 0x30]) 5) \<and>
   checksum_ok (frame_of (mem_of [0x01, 0x07, 0x00, 0x22, 0x30]) 5) \<and>
   frame_of (mem_of [0x01, 0x07, 0x00, 0x22, 0x30]) 5 ! 0 = 0x01 \<and>
   frame_of (mem_of [0x01, 0x07, 0x00, 0x22, 0x30]) 5 ! 1 = 0x07 \<and>
   uart_tx (fst (modbus_process_request (mem_of [0x01, 0x07, 0x00, 0x22, 0x30]) 5 initial_state))
     = uart_tx initial_state @ [[0x01, 0x87, 0x01, 0x82, 0x30]]"
  using illegal_function_response
    [of "mem_of [0x01, 0x07, 0x00, 0x22, 0x30]" 5 "0x07" initial_state] illegal_function_example
  by simp

section \<open>Reading holding registers\<close>

text \<open>
  C6, as claimed: on the 100 cell holding register bank, reading 10 registers from
  address 95 is answered with the exception IllegalDataAddress, and reading 5 registers
  from address 95 with the 5 register values. The frames \<open>01 03 00 5F 00 0A F5 DF\<close> and
  \<open>01 03 00 5F 00 05 B5 DB\<close> are these two requests; neither is answered: the first
  not with \<open>01 83 02 C0 F1\<close>, the second not at all.
\<close>

theorem read_holding_registers_no_reply:
  "checksum_ok [0x01, 0x03, 0x00, 0x5F, 0x00, 0x0A, 0xF5, 0xDF] \<and>
   exception_response 0x01 FC_READ_HOLDING_REGS ERROR_ILLEGAL_DATA_ADDRESS
     = [0x01, 0x83, 0x02, 0xC0, 0xF1] \<and>
   uart_tx (fst (modbus_process_request
      (mem_of [0x01, 0x03, 0x00, 0x5F, 0x00, 0x0A, 0xF5, 0xDF]) 8 initial_state))
     \<noteq> [[0x01, 0x83, 0x02, 0xC0, 0xF1]] \<and>
   checksum_ok [0x01, 0x03, 0x00, 0x5F, 0x00, 0x05, 0xB5, 0xDB] \<and>
   uart_tx (fst (modbus_process_request
      (mem_of [0x01, 0x03, 0x00, 0x5F, 0x00, 0x05, 0xB5, 0xDB]) 8 initial_state)) = []"
  by code_simp

text \<open>
  C6, amended: a read holding registers request with a valid checksum and station
  address 1 is accepted as a known function code and not answered, whatever its start
  address and quantity (95 and 10, or 95 and 5): nothing is transmitted and the state,
  the four banks included, stays as it was.
\<close>

theorem read_holding_registers_unanswered:
  assumes "checksum_ok (frame_of request request_length)"
    and "frame_of request request_length ! 0 = 0x01"
    and "frame_of request request_length ! 1 = FC_READ_HOLDING_REGS"
  shows "fst (modbus_process_request request request_length s) = s"
proof (cases "request_length < 5")
  case True
  then show ?thesis by (simp add: process_short)
next
  case False
  then have "1 < unat request_length" by (simp add: not_short_iff)
  with assms(3) have "request 1 = FC_READ_HOLDING_REGS" by (simp add: frame_of_nth)
  with False show ?thesis by (simp add: process_long)
qed

lemma read_holding_examples:
  "checksum_ok (frame_of (mem_of [0x01, 0x03, 0x00, 0x5F, 0x00, 0x0A, 0xF5, 0xDF]) 8) \<and>
   frame_of (mem_of [0x01, 0x03, 0x00, 0x5F, 0x00, 0x0A, 0xF5, 0xDF]) 8 ! 0 = 0x01 \<and>
   frame_of (mem_of [0x01, 0x03, 0x00, 0x5F, 0x00, 0x0A, 0xF5, 0xDF]) 8 ! 1 = FC_READ_HOLDING_REGS \<and>
   checksum_ok (frame_of (mem_of [0x01, 0x03, 0x00, 0x5F, 0x00, 0x05, 0xB5, 0xDB]) 8) \<and>
   frame_of (mem_of [0x01, 0x03, 0x00, 0x5F, 0x00, 0x05, 0xB5, 0xDB]) 8 ! 0 = 0x01 \<and>
   frame_of (mem_of [0x01, 0x03, 0x00, 0x5F, 0x00, 0x05, 0xB5, 0xDB]) 8 ! 1 = FC_READ_HOLDING_REGS"
  by code_simp

theorem read_holding_registers_unanswered_witness:
  "checksum_ok (frame_of (mem_of [0x01, 0x03, 0x00, 0x5F, 0x00, 0x0A, 0xF5, 0xDF]) 8) \<and>
   fst (modbus_process_request (mem_of [0x01, 0x03, 0x00, 0x5F, 0x00, 0x0A, 0xF5, 0xDF]) 8 initial_state)
     = initial_state \<and>
   checksum_ok (frame_of (mem_of [0x01, 0x03, 0x00, 0x5F, 0x00, 0x05, 0xB5, 0xDB]) 8) \<and>
   fst (modbus_process_request (mem_of [0x01, 0x03, 0x00, 0x5F, 0x00, 0x05, 0xB5, 0xDB]) 8 initial_state)
     = initial_state"
  using read_holding_registers_unanswered
      [of "mem_of [0x01, 0x03, 0x00, 0x5F, 0x00, 0x0A, 0xF5, 0xDF]" 8 initial_state]
    read_holding_registers_unanswered
      [of "mem_of [0x01, 0x03, 0x00, 0x5F, 0x00, 0x05, 0xB5, 0xDB]" 8 initial_state]
    read_holding_examples
  by simp

section \<open>Frame assembly in the poll function\<close>

lemma rx_length_step:
  assumes "unat (l :: u16) \<le> 255"
  shows "unat (if l + 1 \<ge> 256 then 0 else l + 1) \<le> 255"
proof -
  from assms have "l < 256" by (simp add: word_less_nat_alt)
  then have "unat (l + 1) = Suc (unat l)" by (rule unat_succ_below)
  then show ?thesis by (simp add: word_le_nat_alt)
qed

lemma rx_loop_inv:
  "unat (rx_length s) \<le> 255 \<Longrightarrow>
     \<exists>s'. rx_loop bytes s = Inr s' \<and> unat (rx_length s') \<le> 255 \<and> handed s' = handed s \<and>
          uart_tx s' = uart_tx s"
proof (induction bytes arbitrary: s)
  case Nil
  then show ?case by simp
next
  case (Cons byte bytes)
  let ?l = "rx_length s"
  let ?s1 = "s\<lparr>rx_buffer := (rx_buffer s)(unat ?l := byte), rx_length := ?l + 1\<rparr>"
  let ?s2 = "if rx_length ?s1 > 4 then ?s1\<lparr>frame_received := True\<rparr> else ?s1"
  let ?s3 = "if rx_length ?s2 \<ge> 256 then ?s2\<lparr>rx_length := 0\<rparr> else ?s2"
  have step: "rx_loop (byte # bytes) s = rx_loop bytes ?s3"
    using Cons.prems by (simp add: Let_def)
  have "rx_length ?s3 = (if ?l + 1 \<ge> 256 then 0 else ?l + 1)"
    by simp
  then have "unat (rx_length ?s3) \<le> 255"
    using rx_length_step [OF Cons.prems] by simp
  from Cons.IH [OF this] obtain s' where
    "rx_loop bytes ?s3 = Inr s'" "unat (rx_length s') \<le> 255" "handed s' = handed ?s3"
    "uart_tx s' = uart_tx ?s3"
    by blast
  moreover have "handed ?s3 = handed s" "uart_tx ?s3 = uart_tx s" by simp_all
  ultimately show ?case unfolding step by simp
qed

lemma process_keeps_rx:
  "handed (fst (modbus_process_request request len s)) = handed s \<and>
   rx_length (fst (modbus_process_request request len s)) = rx_length s"
  by (cases "len < 5") (simp_all add: process_short process_long)

lemma poll_step_bound:
  assumes "unat (rx_length s) \<le> 255"
  shows "\<exists>s'. modbus_poll bytes s = Inr s' \<and> unat (rx_length s') \<le> 255 \<and>
           (handed s' = handed s \<or> (\<exists>frame. handed s' = handed s @ [frame] \<and> length frame \<le> 255))"
proof -
  from rx_loop_inv [OF assms] obtain s1 where
    s1: "rx_loop bytes s = Inr s1" "unat (rx_length s1) \<le> 255" "handed s1 = handed s"
    by blast
  show ?thesis
  proof (cases "frame_received s1")
    case False
    with s1 show ?thesis by (simp add: modbus_poll_def)
  next
    case True
    with s1 show ?thesis
      by (simp add: modbus_poll_def Let_def process_keeps_rx)
  qed
qed

text \<open>
  C10. Calls of \<^verbatim>\<open>modbus_poll\<close> that start with \<open>rx_length \<le> 255\<close> (as the first call
  does, \<open>rx_length\<close> being 0 then) all return normally, whatever bytes they receive, so
  that every store \<^verbatim>\<open>rx_buffer[rx_length++]\<close> was at an index below 256; they end with
  \<open>rx_length \<le> 255\<close>, and every frame they handed to \<^verbatim>\<open>modbus_process_request\<close> has
  at most 255 bytes.
\<close>

theorem rx_length_bounded:
  assumes "unat (rx_length s) \<le> 255"
  shows "\<exists>s' frames. poll_seq calls s = Inr s' \<and> unat (rx_length s') \<le> 255 \<and>
           handed s' = handed s @ frames \<and> (\<forall>frame \<in> set frames. length frame \<le> 255)"
  using assms
proof (induction calls arbitrary: s)
  case Nil
  then show ?case by simp
next
  case (Cons bytes calls)
  from poll_step_bound [OF Cons.prems, of bytes] obtain s1 where
    s1: "modbus_poll bytes s = Inr s1" "unat (rx_length s1) \<le> 255"
      "handed s1 = handed s \<or> (\<exists>frame. handed s1 = handed s @ [frame] \<and> length frame \<le> 255)"
    by blast
  from s1(3) obtain fs1 where
    fs1: "handed s1 = handed s @ fs1" "\<forall>frame \<in> set fs1. length frame \<le> 255"
    by (cases "handed s1 = handed s") auto
  from Cons.IH [OF s1(2)] obtain s' fs where
    rest: "poll_seq calls s1 = Inr s'" "unat (rx_length s') \<le> 255"
      "handed s' = handed s1 @ fs" "\<forall>frame \<in> set fs. length frame \<le> 255"
    by blast
  have "poll_seq (bytes # calls) s = Inr s'"
    using s1(1) rest(1) by simp
  moreover have "handed s' = handed s @ (fs1 @ fs)"
    using fs1(1) rest(3) by simp
  moreover have "\<forall>frame \<in> set (fs1 @ fs). length frame \<le> 255"
    using fs1(2) rest(4) by auto
  ultimately show ?case using rest(2) by blast
qed

theorem rx_length_bounded_witness:
  "unat (rx_length initial_state) \<le> 255 \<and>
   (\<exists>s' frames.
      poll_seq [[0x01, 0x03, 0x00], [0x00, 0x00, 0x01, 0x84, 0x0A]] initial_state = Inr s' \<and>
      unat (rx_length s') \<le> 255 \<and> handed s' = handed initial_state @ frames \<and>
      (\<forall>frame \<in> set frames. length frame \<le> 255))"
  using rx_length_bounded
    [of initial_state "[[0x01, 0x03, 0x00], [0x00, 0x00, 0x01, 0x84, 0x0A]]"]
  by (simp add: initial_state_def)

lemma rx_loop_accumulates:
  "unat (rx_length s) + length bytes < 256 \<Longrightarrow>
     \<exists>s'. rx_loop bytes s = Inr s' \<and>
       unat (rx_length s') = unat (rx_length s) + length bytes \<and>
       map (rx_buffer s') [0..<unat (rx_length s')] = map (rx_buffer s) [0..<unat (rx_length s)] @ bytes \<and>
       frame_received s' = (frame_received s \<or> (bytes \<noteq> [] \<and> 4 < unat (rx_length s) + length bytes)) \<and>
       handed s' = handed s \<and> uart_tx s' = uart_tx s"
proof (induction bytes arbitrary: s)
  case Nil
  then show ?case by simp
next
  case (Cons byte bytes)
  let ?l = "rx_length s"
  let ?s1 = "s\<lparr>rx_buffer := (rx_buffer s)(unat ?l := byte), rx_length := ?l + 1\<rparr>"
  let ?s2 = "if rx_length ?s1 > 4 then ?s1\<lparr>frame_received := True\<rparr> else ?s1"
  from Cons.prems have small: "unat ?l < 255" by simp
  then have "?l < 255" by (simp add: word_less_nat_alt)
  then have suc: "unat (?l + 1) = Suc (unat ?l)" by (rule unat_succ_below)
  with small have no_reset: "\<not> ?l + 1 \<ge> 256" by (simp add: word_le_nat_alt)
  have step: "rx_loop (byte # bytes) s = rx_loop bytes ?s2"
    using small no_reset by (simp add: Let_def)
  have len2: "unat (rx_length ?s2) = Suc (unat ?l)"
    using suc by simp
  have fr2: "frame_received ?s2 = (frame_received s \<or> 4 < Suc (unat ?l))"
    using suc by (simp add: word_less_nat_alt)
  have buf2: "map (rx_buffer ?s2) [0..<Suc (unat ?l)] = map (rx_buffer s) [0..<unat ?l] @ [byte]"
    by simp
  have "unat (rx_length ?s2) + length bytes < 256"
    using Cons.prems len2 by simp
  from Cons.IH [OF this] obtain s' where s':
    "rx_loop bytes ?s2 = Inr s'"
    "unat (rx_length s') = unat (rx_length ?s2) + length bytes"
    "map (rx_buffer s') [0..<unat (rx_length s')] = map (rx_buffer ?s2) [0..<unat (rx_length ?s2)] @ bytes"
    "frame_received s' = (frame_received ?s2 \<or> (bytes \<noteq> [] \<and> 4 < unat (rx_length ?s2) + length bytes))"
    "handed s' = handed ?s2" "uart_tx s' = uart_tx ?s2"
    by blast
  have "unat (rx_length s') = unat ?l + length (byte # bytes)"
    using s'(2) len2 by simp
  moreover have "map (rx_buffer s') [0..<unat (rx_length s')] = map (rx_buffer s) [0..<unat ?l] @ byte # bytes"
    using s'(3) buf2 by (simp only: len2) simp
  moreover have "frame_received s' = (frame_received s \<or> 4 < unat ?l + length (byte # bytes))"
    using s'(4) fr2 by (simp only: len2) auto
  moreover have "handed s' = handed s" "uart_tx s' = uart_tx s"
    using s'(5,6) by simp_all
  ultimately show ?case
    unfolding step using s'(1) by simp
qed

lemma process_keeps_poll_state:
  "handed (fst (modbus_process_request request len s)) = handed s \<and>
   rx_length (fst (modbus_process_request request len s)) = rx_length s \<and>
   rx_buffer (fst (modbus_process_request request len s)) = rx_buffer s \<and>
   frame_received (fst (modbus_process_request request len s)) = frame_received s"
  by (cases "len < 5") (simp_all add: process_short process_long)

lemma poll_by_count:
  assumes "\<not> frame_received s" and "unat (rx_length s) \<le> 4"
    and "unat (rx_length s) + length bytes < 256"
  shows "\<exists>s'. modbus_poll bytes s = Inr s' \<and> \<not> frame_received s' \<and>
     (if 4 < unat (rx_length s) + length bytes
      then handed s' = handed s @ [map (rx_buffer s) [0..<unat (rx_length s)] @ bytes] \<and>
           rx_length s' = 0
      else handed s' = handed s \<and>
           unat (rx_length s') = unat (rx_length s) + length bytes \<and>
           map (rx_buffer s') [0..<unat (rx_length s')] =
             map (rx_buffer s) [0..<unat (rx_length s)] @ bytes)"
proof -
  from rx_loop_accumulates [OF assms(3)] obtain s1 where s1:
    "rx_loop bytes s = Inr s1"
    "unat (rx_length s1) = unat (rx_length s) + length bytes"
    "map (rx_buffer s1) [0..<unat (rx_length s1)] = map (rx_buffer s) [0..<unat (rx_length s)] @ bytes"
    "frame_received s1 = (frame_received s \<or> (bytes \<noteq> [] \<and> 4 < unat (rx_length s) + length bytes))"
    "handed s1 = handed s"
    by blast
  from assms(1,2) s1(4) have fr: "frame_received s1 = (4 < unat (rx_length s) + length bytes)"
    by auto
  show ?thesis
  proof (cases "4 < unat (rx_length s) + length bytes")
    case True
    with fr s1 show ?thesis
      by (simp add: modbus_poll_def Let_def process_keeps_poll_state)
  next
    case False
    with fr s1 show ?thesis
      by (simp add: modbus_poll_def)
  qed
qed

text \<open>A call that receives nothing while no frame is pending changes nothing.\<close>

lemma silent_poll: "\<not> frame_received s \<Longrightarrow> modbus_poll [] s = Inr s"
  by (simp add: modbus_poll_def)

lemma silent_polls:
  "\<not> frame_received s \<Longrightarrow> poll_seq (replicate n [] @ rest) s = poll_seq rest s"
  by (induction n) (simp_all add: silent_poll)

lemma two_bursts:
  assumes "\<not> frame_received s"
    and "unat (rx_length s) + length first \<le> 4"
    and "4 < unat (rx_length s) + length first + length second"
    and "unat (rx_length s) + length first + length second < 256"
  shows "\<exists>s'. poll_seq (first # replicate n [] @ [second]) s = Inr s' \<and>
           handed s' = handed s @ [map (rx_buffer s) [0..<unat (rx_length s)] @ first @ second] \<and>
           rx_length s' = 0 \<and> \<not> frame_received s'"
proof -
  from assms(2) have a: "unat (rx_length s) \<le> 4" "unat (rx_length s) + length first < 256"
    by simp_all
  from poll_by_count [OF assms(1) a] assms(2) obtain s1 where s1:
    "modbus_poll first s = Inr s1" "\<not> frame_received s1" "handed s1 = handed s"
    "unat (rx_length s1) = unat (rx_length s) + length first"
    "map (rx_buffer s1) [0..<unat (rx_length s1)] = map (rx_buffer s) [0..<unat (rx_length s)] @ first"
    by auto
  from s1(4) assms have b: "unat (rx_length s1) \<le> 4" "unat (rx_length s1) + length second < 256"
    "4 < unat (rx_length s1) + length second"
    by simp_all
  from poll_by_count [OF s1(2) b(1,2)] b(3) obtain s2 where s2:
    "modbus_poll second s1 = Inr s2" "\<not> frame_received s2"
    "handed s2 = handed s1 @ [map (rx_buffer s1) [0..<unat (rx_length s1)] @ second]"
    "rx_length s2 = 0"
    by auto
  have "poll_seq (first # replicate n [] @ [second]) s = poll_seq [second] s1"
    using s1(1,2) by (simp add: silent_polls)
  also have "\<dots> = Inr s2" using s2(1) by simp
  finally show ?thesis using s2 s1(3,5) by simp
qed

text \<open>
  C8, as claimed: a candidate frame is emitted when the inter-character timer expires
  and never because of the number of bytes, so that \<open>01 03\<close>, a silence, then
  \<open>00 00 00 01\<close> are two candidate frames. With \<open>01 03\<close> received in one call, nothing
  in the next call (the silence) and \<open>00 00 00 01\<close> in a third call, the frames handed
  to the request handler are not \<open>01 03\<close> and \<open>00 00 00 01\<close>; and the eight byte
  request \<open>01 03 00 00 00 01 84 0A\<close> arriving as five bytes in one call and three in the
  next is cut after its fifth byte, with no silence in between: its first five bytes are
  the only frame handed over.
\<close>

theorem gap_does_not_split_frames:
  "map_sum id handed
     (poll_seq [[0x01, 0x03], [], [0x00, 0x00, 0x00, 0x01]] initial_state)
     \<noteq> Inr [[0x01, 0x03], [0x00, 0x00, 0x00, 0x01]] \<and>
   map_sum id handed
     (poll_seq [[0x01, 0x03, 0x00, 0x00, 0x00], [0x01, 0x84, 0x0A]] initial_state)
     = Inr [[0x01, 0x03, 0x00, 0x00, 0x00]]"
  by code_simp

text \<open>
  C8, amended: \<^verbatim>\<open>modbus_poll\<close> reads no timer and cuts frames by the byte count. With
  no frame pending and at most four bytes accumulated, a call that brings the count to
  at most four keeps accumulating and hands nothing over; a call that brings it above
  four (and below 256) hands all accumulated bytes over as one frame at its end and
  empties the accumulator. So when \<open>01 03\<close> arrives within one call, the silence is any
  number of calls that receive nothing, and \<open>00 00 00 01\<close> arrives within one call, the
  six bytes are handed over as the one frame \<open>01 03 00 00 00 01\<close>; when the four later
  bytes arrive one per call, the frame is cut at the call that brings the fifth byte:
  \<open>01 03 00 00 00\<close> is handed over and \<open>01\<close> stays in the accumulator.
\<close>

theorem frames_cut_by_byte_count:
  assumes "\<not> frame_received s" and "unat (rx_length s) \<le> 4"
    and "unat (rx_length s) + length bytes < 256"
  shows "(\<exists>s'. modbus_poll bytes s = Inr s' \<and> \<not> frame_received s' \<and>
           (if 4 < unat (rx_length s) + length bytes
            then handed s' = handed s @ [map (rx_buffer s) [0..<unat (rx_length s)] @ bytes] \<and>
                 rx_length s' = 0
            else handed s' = handed s \<and>
                 unat (rx_length s') = unat (rx_length s) + length bytes \<and>
                 map (rx_buffer s') [0..<unat (rx_length s')] =
                   map (rx_buffer s) [0..<unat (rx_length s)] @ bytes)) \<and>
         map_sum id handed
           (poll_seq ([0x01, 0x03] # replicate gap [] @ [[0x00, 0x00, 0x00, 0x01]]) initial_state)
           = Inr [[0x01, 0x03, 0x00, 0x00, 0x00, 0x01]] \<and>
         map_sum id handed
           (poll_seq [[0x01, 0x03], [], [0x00], [0x00], [0x00], [0x01]] initial_state)
           = Inr [[0x01, 0x03, 0x00, 0x00, 0x00]] \<and>
         map_sum id rx_length
           (poll_seq [[0x01, 0x03], [], [0x00], [0x00], [0x00], [0x01]] initial_state)
           = Inr 1"
proof (intro conjI)
  show "\<exists>s'. modbus_poll bytes s = Inr s' \<and> \<not> frame_received s' \<and>
           (if 4 < unat (rx_length s) + length bytes
            then handed s' = handed s @ [map (rx_buffer s) [0..<unat (rx_length s)] @ bytes] \<and>
                 rx_length s' = 0
            else handed s' = handed s \<and>
                 unat (rx_length s') = unat (rx_length s) + length bytes \<and>
                 map (rx_buffer s') [0..<unat (rx_length s')] =
                   map (rx_buffer s) [0..<unat (rx_length s)] @ bytes)"
    by (rule poll_by_count [OF assms])
  have "\<exists>s'. poll_seq ([0x01, 0x03] # replicate gap [] @ [[0x00, 0x00, 0x00, 0x01]]) initial_state
            = Inr s' \<and>
          handed s' = handed initial_state @
            [map (rx_buffer initial_state) [0..<unat (rx_length initial_state)] @
             [0x01, 0x03] @ [0x00, 0x00, 0x00, 0x01]] \<and>
          rx_length s' = 0 \<and> \<not> frame_received s'"
    by (rule two_bursts) (simp_all add: initial_state_def)
  then show "map_sum id handed
           (poll_seq ([0x01, 0x03] # replicate gap [] @ [[0x00, 0x00, 0x00, 0x01]]) initial_state)
           = Inr [[0x01, 0x03, 0x00, 0x00, 0x00, 0x01]]"
    by (auto simp add: initial_state_def)
  show "map_sum id handed
           (poll_seq [[0x01, 0x03], [], [0x00], [0x00], [0x00], [0x01]] initial_state)
           = Inr [[0x01, 0x03, 0x00, 0x00, 0x00]]"
    by code_simp
  show "map_sum id rx_length
           (poll_seq [[0x01, 0x03], [], [0x00], [0x00], [0x00], [0x01]] initial_state)
           = Inr 1"
    by code_simp
qed

theorem frames_cut_by_byte_count_witness:
  "\<not> frame_received initial_state \<and> unat (rx_length initial_state) \<le> 4 \<and>
   (\<exists>s'. modbus_poll [0x01, 0x03, 0x00, 0x00, 0x00, 0x01] initial_state = Inr s' \<and>
      \<not> frame_received s' \<and>
      handed s' = [[0x01, 0x03, 0x00, 0x00, 0x00, 0x01]] \<and> rx_length s' = 0) \<and>
   (\<exists>s'. modbus_poll [0x01, 0x03] initial_state = Inr s' \<and>
      \<not> frame_received s' \<and> handed s' = [] \<and> unat (rx_length s') = 2 \<and>
      map (rx_buffer s') [0..<unat (rx_length s')] = [0x01, 0x03]) \<and>
   map_sum id handed
     (poll_seq [[0x01, 0x03], [], [], [], [0x00, 0x00, 0x00, 0x01]] initial_state)
     = Inr [[0x01, 0x03, 0x00, 0x00, 0x00, 0x01]]"
  using frames_cut_by_byte_count [of initial_state "[0x01, 0x03, 0x00, 0x00, 0x00, 0x01]" 3]
    frames_cut_by_byte_count [of initial_state "[0x01, 0x03]" 3]
  by (simp add: initial_state_def numeral_2_eq_2 numeral_3_eq_3)

end
